theory Spec2Isabelle
  imports Main "HOL-Library.Sublist" "HOL-Library.List_Lexorder" "HOL-Library.Multiset"
begin

section \<open>Python strings\<close>

text \<open>
  A Python \<open>str\<close> is a sequence of Unicode code points; \<open>len\<close>, \<open>find\<close>, slicing,
  \<open>replace\<close>, \<open>split\<close>, \<open>strip\<close> and comparison all work on code points. A string is
  therefore a list of code points (natural numbers). \<open>lit\<close> turns an ASCII literal into
  such a list; the backslash (code point 92) cannot be written inside a literal and is
  always given as \<open>BS\<close>.
\<close>

type_synonym str = "nat list"

definition lit :: "string \<Rightarrow> str" where
  "lit s = map of_char s"

abbreviation BS :: nat where "BS \<equiv> 92"
abbreviation NL :: nat where "NL \<equiv> 10"
abbreviation DQ :: nat where "DQ \<equiv> 34"
abbreviation LBRACE :: nat where "LBRACE \<equiv> 123"
abbreviation RBRACE :: nat where "RBRACE \<equiv> 125"

text \<open>
  \<open>occurs_at sub text i\<close>: the slice \<open>text[i : i + len(sub)]\<close> is \<open>sub\<close> and lies inside
  \<open>text\<close>. It is the specification that \<open>str.find\<close> is measured against.
\<close>

definition occurs_at :: "'a list \<Rightarrow> 'a list \<Rightarrow> nat \<Rightarrow> bool" where
  "occurs_at sub text i \<longleftrightarrow> i + length sub \<le> length text \<and> take (length sub) (drop i text) = sub"

text \<open>
  \<open>find_at sub xs i\<close> scans the suffix \<open>xs\<close> of a text, which starts at index \<open>i\<close> of the
  text, and returns the index of the first position where \<open>sub\<close> starts. The empty
  \<open>sub\<close> is found at once, also at the very end of the text.
\<close>

fun find_at :: "'a list \<Rightarrow> 'a list \<Rightarrow> nat \<Rightarrow> nat option" where
  "find_at sub [] i = (if sub = [] then Some i else None)"
| "find_at sub (x # xs) i = (if prefix sub (x # xs) then Some i else find_at sub xs (Suc i))"

text \<open>
  \<open>text.find(sub, start)\<close>: a negative \<open>start\<close> counts from the end and is clamped to 0;
  the result is the lowest index at or after \<open>start\<close> where \<open>sub\<close> occurs, or -1.
  \<open>text.find(sub)\<close> is \<open>py_find text sub 0\<close>.
\<close>

definition py_find :: "'a list \<Rightarrow> 'a list \<Rightarrow> int \<Rightarrow> int" where
  "py_find text sub start =
     (let n = int (length text);
          s = (if start < 0 then max 0 (start + n) else start)
      in if n < s then - 1
         else (case find_at sub (drop (nat s) text) (nat s) of
                 None \<Rightarrow> - 1
               | Some i \<Rightarrow> int i))"

text \<open>The slices \<open>text[:j]\<close> and \<open>text[j:]\<close>, with Python's reading of a negative index.\<close>

definition slice_to :: "'a list \<Rightarrow> int \<Rightarrow> 'a list" where
  "slice_to text j = take (nat (if j < 0 then max 0 (j + int (length text)) else j)) text"

definition slice_from :: "'a list \<Rightarrow> int \<Rightarrow> 'a list" where
  "slice_from text j = drop (nat (if j < 0 then max 0 (j + int (length text)) else j)) text"

section \<open>Errors\<close>

text \<open>
  The two exceptions the formatting core can raise: \<open>ValueError\<close> with its message
  (from \<open>replace_between_markers\<close>) and \<open>KeyError\<close> with the missing key (from
  \<open>entry["ENTRYTYPE"]\<close>).
\<close>

datatype error = ValueError str | KeyError str

section \<open>The marker splicer\<close>

text \<open>
  \<^verbatim>\<open>
  def replace_between_markers(text, begin_marker, end_marker, new_content):
      start = text.find(begin_marker)
      end = text.find(end_marker, start)
      if start == -1 or end == -1:
          raise ValueError(f"Markers {begin_marker} / {end_marker} not found")
      return text[: start + len(begin_marker)] + "\n" + new_content + "\n" + text[end:]
  \<close>
\<close>

definition markers_not_found :: "str \<Rightarrow> str \<Rightarrow> error" where
  "markers_not_found begin_marker end_marker =
     ValueError (lit ''Markers '' @ begin_marker @ lit '' / '' @ end_marker @ lit '' not found'')"

definition replace_between_markers :: "str \<Rightarrow> str \<Rightarrow> str \<Rightarrow> str \<Rightarrow> error + str" where
  "replace_between_markers text begin_marker end_marker new_content =
     (let start = py_find text begin_marker 0;
          endpos = py_find text end_marker start
      in if start = - 1 \<or> endpos = - 1
         then Inl (markers_not_found begin_marker end_marker)
         else Inr (slice_to text (start + int (length begin_marker))
                   @ [NL] @ new_content @ [NL] @ slice_from text endpos))"

text \<open>
  The positions where \<open>sub\<close> occurs in \<open>text\<close>, in increasing order, and the first of
  them at or after a position \<open>s\<close>. Both are given independently of the scan that
  \<open>py_find\<close> performs; "occurs exactly once" is \<open>occurrences sub text = [i]\<close>.
\<close>

definition occurrences :: "'a list \<Rightarrow> 'a list \<Rightarrow> nat list" where
  "occurrences sub text = filter (occurs_at sub text) [0..<Suc (length text)]"

definition first_index :: "'a list \<Rightarrow> 'a list \<Rightarrow> nat \<Rightarrow> nat option" where
  "first_index sub text s =
     (case filter (\<lambda>j. s \<le> j) (occurrences sub text) of [] \<Rightarrow> None | k # _ \<Rightarrow> Some k)"

section \<open>More string operations\<close>

text \<open>
  \<open>s.replace(old, new)\<close> replaces the non-overlapping occurrences of \<open>old\<close> from left to
  right; with an empty \<open>old\<close> it puts \<open>new\<close> before every character and at the end.
\<close>

function py_replace :: "'a list \<Rightarrow> 'a list \<Rightarrow> 'a list \<Rightarrow> 'a list" where
  "py_replace old new [] = (if old = [] then new else [])"
| "py_replace old new (x # xs) =
     (if old = [] then new @ x # py_replace old new xs
      else if prefix old (x # xs) then new @ py_replace old new (drop (length old) (x # xs))
      else x # py_replace old new xs)"
  by pat_completeness auto
termination
  by (relation "measure (\<lambda>(old, new, s). length s)") auto

text \<open>
  \<open>s.split(sep)\<close> for a non-empty \<open>sep\<close> (Python raises ValueError on an empty one; the
  only separator the program uses is the literal \<open>" and "\<close>): the pieces between the
  non-overlapping occurrences of \<open>sep\<close>, at least one piece.
\<close>

function py_split :: "'a list \<Rightarrow> 'a list \<Rightarrow> 'a list list" where
  "py_split sep [] = [[]]"
| "py_split sep (x # xs) =
     (if sep \<noteq> [] \<and> prefix sep (x # xs) then [] # py_split sep (drop (length sep) (x # xs))
      else (case py_split sep xs of
              [] \<Rightarrow> [[x]]
            | piece # pieces \<Rightarrow> (x # piece) # pieces))"
  by pat_completeness auto
termination
  by (relation "measure (\<lambda>(sep, s). length s)") auto

text \<open>\<open>sep.join(xs)\<close>.\<close>

fun py_join :: "'a list \<Rightarrow> 'a list list \<Rightarrow> 'a list" where
  "py_join sep [] = []"
| "py_join sep [x] = x"
| "py_join sep (x # y # ys) = x @ sep @ py_join sep (y # ys)"

text \<open>\<open>sub in s\<close>.\<close>

definition py_in :: "'a list \<Rightarrow> 'a list \<Rightarrow> bool" where
  "py_in sub s \<longleftrightarrow> find_at sub s 0 \<noteq> None"

text \<open>
  \<open>s.strip()\<close> removes the leading and trailing run of whitespace, \<open>s.strip(chars)\<close> the
  leading and trailing run of characters that are in \<open>chars\<close>. \<open>is_space\<close> lists the code
  points for which \<open>str.isspace\<close> holds.
\<close>

definition strip_by :: "('a \<Rightarrow> bool) \<Rightarrow> 'a list \<Rightarrow> 'a list" where
  "strip_by P s = rev (dropWhile P (rev (dropWhile P s)))"

definition is_space :: "nat \<Rightarrow> bool" where
  "is_space c \<longleftrightarrow>
     (9 \<le> c \<and> c \<le> 13) \<or> (28 \<le> c \<and> c \<le> 32) \<or> c = 133 \<or> c = 160 \<or> c = 5760
     \<or> (8192 \<le> c \<and> c \<le> 8202) \<or> c = 8232 \<or> c = 8233 \<or> c = 8239 \<or> c = 8287 \<or> c = 12288"

definition py_strip :: "str \<Rightarrow> str" where
  "py_strip s = strip_by is_space s"

definition py_strip_chars :: "str \<Rightarrow> str \<Rightarrow> str" where
  "py_strip_chars chars s = strip_by (\<lambda>c. c \<in> set chars) s"

text \<open>
  \<open>s.lower()\<close>, on the letters A to Z. Python also lowers letters beyond ASCII, but the
  program only compares the result with \<open>"article"\<close> and \<open>"inproceedings"\<close>, and no
  character beyond ASCII lowers to a letter of these two words, so both comparisons
  come out the same.
\<close>

definition py_lower :: "str \<Rightarrow> str" where
  "py_lower s = map (\<lambda>c. if 65 \<le> c \<and> c \<le> 90 then c + 32 else c) s"

section \<open>Accent normalization\<close>

text \<open>
  The table of \<open>latex_to_unicode\<close>, in the order of the dictionary literal. The keys are
  raw strings: \<open>r"{\'a}"\<close> is brace, backslash, apostrophe, a, brace, and \<open>r"\\&"\<close> is two
  backslashes and an ampersand. The values are single code points.
\<close>

abbreviation APOS :: nat where "APOS \<equiv> 39"
abbreviation GRAVE :: nat where "GRAVE \<equiv> 96"
abbreviation CARET :: nat where "CARET \<equiv> 94"
abbreviation TILDE :: nat where "TILDE \<equiv> 126"

definition replacements :: "(str \<times> str) list" where
  "replacements =
    [([LBRACE, BS, APOS] @ lit ''a}'', [225]), ([LBRACE, BS, APOS] @ lit ''e}'', [233]),
     ([LBRACE, BS, APOS] @ lit ''i}'', [237]), ([LBRACE, BS, APOS] @ lit ''o}'', [243]),
     ([LBRACE, BS, APOS] @ lit ''u}'', [250]),
     ([LBRACE, BS, GRAVE] @ lit ''a}'', [224]), ([LBRACE, BS, GRAVE] @ lit ''e}'', [232]),
     ([LBRACE, BS, GRAVE] @ lit ''i}'', [236]), ([LBRACE, BS, GRAVE] @ lit ''o}'', [242]),
     ([LBRACE, BS, GRAVE] @ lit ''u}'', [249]),
     ([LBRACE, BS, CARET] @ lit ''a}'', [226]), ([LBRACE, BS, CARET] @ lit ''e}'', [234]),
     ([LBRACE, BS, CARET] @ lit ''i}'', [238]), ([LBRACE, BS, CARET] @ lit ''o}'', [244]),
     ([LBRACE, BS, CARET] @ lit ''u}'', [251]),
     ([LBRACE, BS, DQ] @ lit ''a}'', [228]), ([LBRACE, BS, DQ] @ lit ''e}'', [235]),
     ([LBRACE, BS, DQ] @ lit ''i}'', [239]), ([LBRACE, BS, DQ] @ lit ''o}'', [246]),
     ([LBRACE, BS, DQ] @ lit ''u}'', [252]),
     ([LBRACE, BS, TILDE] @ lit ''n}'', [241]), ([LBRACE, BS] @ lit ''c{c}}'', [231]),
     ([BS, BS] @ lit ''&'', lit ''&'')]"

text \<open>
  \<^verbatim>\<open>
  for latex, uni in replacements.items():
      s = s.replace(latex, uni)
  return re.sub(r"[{}]", "", s)
  \<close>
\<close>

definition is_brace :: "nat \<Rightarrow> bool" where
  "is_brace c \<longleftrightarrow> c = LBRACE \<or> c = RBRACE"

definition latex_to_unicode :: "str \<Rightarrow> str" where
  "latex_to_unicode s =
     filter (\<lambda>c. \<not> is_brace c) (foldl (\<lambda>s (latex, uni). py_replace latex uni s) s replacements)"

section \<open>The record formatter\<close>

text \<open>
  A bibliography entry is a dictionary from field names to strings; \<open>get\<close> is
  \<open>entry.get(key, default)\<close>.
\<close>

type_synonym entry = "str \<rightharpoonup> str"

definition get :: "entry \<Rightarrow> str \<Rightarrow> str \<Rightarrow> str" where
  "get e key dflt = (case e key of None \<Rightarrow> dflt | Some v \<Rightarrow> v)"

text \<open>
  \<open>format_authors\<close>; the global \<open>author_to_bold\<close> of the configuration block is the first
  argument.
\<close>

definition embolden :: "str \<Rightarrow> bool \<Rightarrow> str \<Rightarrow> str" where
  "embolden author_to_bold html a =
     (if py_in author_to_bold a
      then (if html then lit ''<strong>'' @ a @ lit ''</strong>''
            else [BS] @ lit ''textbf{'' @ a @ lit ''}'')
      else a)"

definition format_authors :: "str \<Rightarrow> str \<Rightarrow> bool \<Rightarrow> str" where
  "format_authors author_to_bold authors_raw html =
     (let authors = map py_strip (py_split (lit '' and '') (py_replace [NL] (lit '' '') authors_raw));
          out = map (embolden author_to_bold html) authors;
          authors_str = py_join (lit '', '') out
      in if html then latex_to_unicode authors_str else authors_str)"

text \<open>
  \<open>format_publication\<close> returns the pair of category and line, or \<open>(None, None)\<close> for an
  entry type it does not know (here \<open>None\<close>); \<open>entry["ENTRYTYPE"]\<close> raises KeyError when the
  key is missing. The pieces of the line are named as the source's local variables;
  \<open>hal_or_url\<close> is \<open>entry.get("hal_id", "") or entry.get("url", "")\<close>.
\<close>

definition article_details :: "entry \<Rightarrow> str" where
  "article_details entry =
     (let year = get entry (lit ''year'') [];
          journal = get entry (lit ''journal'') [];
          vol = get entry (lit ''volume'') [];
          num = get entry (lit ''number'') [];
          pages = get entry (lit ''pages'') []
      in journal
         @ (if vol \<noteq> [] then lit '', '' @ vol else [])
         @ (if num \<noteq> [] then lit ''('' @ num @ lit '')'' else [])
         @ (if pages \<noteq> [] then lit '', '' @ pages else [])
         @ (if year \<noteq> [] then lit '', '' @ year else []))"

definition inproceedings_details :: "entry \<Rightarrow> str" where
  "inproceedings_details entry =
     (let year = get entry (lit ''year'') [];
          book = get entry (lit ''booktitle'') [];
          addr = get entry (lit ''address'') []
      in book
         @ (if addr \<noteq> [] then lit '', '' @ addr else [])
         @ (if year \<noteq> [] then lit '', '' @ year else []))"

definition html_links :: "str \<Rightarrow> str \<Rightarrow> str" where
  "html_links doi hal =
     (if doi \<noteq> [] then lit '' <a href='' @ [DQ] @ lit ''https://doi.org/'' @ doi @ [DQ] @ lit ''>DOI</a>''
      else [])
     @ (if hal \<noteq> [] then lit '' <a href='' @ [DQ] @ hal @ [DQ] @ lit ''>HAL</a>'' else [])"

definition html_line :: "str \<Rightarrow> str \<Rightarrow> str \<Rightarrow> str" where
  "html_line authors title details =
     authors @ lit ''. '' @ title @ lit ''. <em>'' @ latex_to_unicode details @ lit ''</em>.''"

definition tex_line :: "str \<Rightarrow> str \<Rightarrow> str \<Rightarrow> str" where
  "tex_line authors title details =
     [BS] @ lit ''item '' @ authors @ lit ''. '' @ title @ lit ''. '' @ [BS] @ lit ''textit{''
     @ details @ lit ''}.''"

definition article_tex_link :: "str \<Rightarrow> str" where
  "article_tex_link doi =
     (if doi \<noteq> []
      then lit '': '' @ [BS] @ lit ''href{https://doi.org/'' @ doi @ lit ''}{'' @ doi @ lit ''}''
      else [])"

definition inproceedings_tex_link :: "str \<Rightarrow> str \<Rightarrow> str" where
  "inproceedings_tex_link doi hal =
     (if doi \<noteq> []
      then lit '': '' @ [BS] @ lit ''href{https://doi.org/'' @ doi @ lit ''}{'' @ [BS]
           @ lit ''nolinkurl{'' @ doi @ lit ''}}''
      else lit '': '' @ [BS] @ lit ''href{'' @ hal @ lit ''}{'' @ [BS] @ lit ''nolinkurl{'' @ hal
           @ lit ''}}'')"

definition hal_or_url :: "entry \<Rightarrow> str" where
  "hal_or_url entry =
     (let h = get entry (lit ''hal_id'') []
      in if h \<noteq> [] then h else get entry (lit ''url'') [])"

definition format_publication :: "str \<Rightarrow> entry \<Rightarrow> bool \<Rightarrow> error + (str \<times> str) option" where
  "format_publication author_to_bold entry html =
     (case entry (lit ''ENTRYTYPE'') of
        None \<Rightarrow> Inl (KeyError (lit ''ENTRYTYPE''))
      | Some entrytype \<Rightarrow>
          (let etype = py_lower entrytype;
               authors = format_authors author_to_bold (get entry (lit ''author'') []) html;
               title = py_strip_chars (lit ''{}'') (get entry (lit ''title'') []);
               doi = get entry (lit ''doi'') [];
               hal = hal_or_url entry;
               title = (if html then latex_to_unicode title else title)
           in if etype = lit ''article'' then
                (let details = article_details entry
                 in Inr (Some (lit ''journal'',
                      if html then html_line authors title details @ html_links doi hal
                      else tex_line authors title details @ article_tex_link doi)))
              else if etype = lit ''inproceedings'' then
                (let details = inproceedings_details entry
                 in Inr (Some (lit ''conference'',
                      if html then html_line authors title details @ html_links doi hal
                      else tex_line authors title details @ inproceedings_tex_link doi hal)))
              else Inr None))"

text \<open>
  \<open>format_talk\<close>; the link text of the web line is the two code points U+2197 U+FE0F.
\<close>

definition format_talk :: "entry \<Rightarrow> bool \<Rightarrow> str \<times> str" where
  "format_talk entry html =
     (let title = get entry (lit ''title'') [];
          address = get entry (lit ''address'') [];
          year = get entry (lit ''year'') [];
          note = get entry (lit ''note'') [];
          url = get entry (lit ''url'') [];
          details = address
            @ (if note \<noteq> []
               then (if year \<noteq> [] then lit '', '' @ note @ lit '' '' @ year else lit '', '' @ note)
               else if year \<noteq> [] then lit '', '' @ year
               else []);
          line =
            (if html
             then (if url \<noteq> []
                   then title @ lit '', '' @ details @ lit ''. <a href='' @ [DQ] @ url @ [DQ]
                        @ lit '' style='' @ [DQ] @ lit ''text-decoration:none'' @ [DQ] @ lit ''>''
                        @ [8599, 65039] @ lit ''</a>''
                   else title @ lit '', '' @ details @ lit ''.'')
             else [BS] @ lit ''item '' @ title @ lit '', '' @ details @ lit ''.''
                  @ (if url \<noteq> [] then lit '' '' @ [BS] @ lit ''url{'' @ url @ lit ''}'' else []))
      in (get entry (lit ''type'') (lit ''other''), line))"

section \<open>Sorting and bucketing\<close>

text \<open>
  \<^verbatim>\<open>bib.entries.sort(key=lambda e: e.get("year", "0"), reverse=True)\<close>
  The key is the year as a string, and strings compare lexicographically by code point.
  \<open>list.sort\<close> is stable, also with \<open>reverse=True\<close>: entries with equal keys keep their
  order. A stable descending sort is the reverse of the stable ascending sort of the
  reversed list.
\<close>

definition year_key :: "entry \<Rightarrow> str" where
  "year_key e = get e (lit ''year'') (lit ''0'')"

definition sort_entries :: "entry list \<Rightarrow> entry list" where
  "sort_entries entries = rev (sort_key year_key (rev entries))"

text \<open>
  The four lists that the publication loop appends to, and the loop itself: each entry is
  formatted in both dialects and appended to the list of its category; an exception
  ends the run.
\<close>

record pub_buckets =
  journal_tex_entries :: "str list"
  conf_tex_entries :: "str list"
  journal_html_entries :: "str list"
  conf_html_entries :: "str list"

definition li :: "str \<Rightarrow> str" where
  "li line = lit ''<li>'' @ line @ lit ''</li>''"

definition pub_step :: "str \<Rightarrow> pub_buckets \<Rightarrow> entry \<Rightarrow> error + pub_buckets" where
  "pub_step author_to_bold b entry =
     (case format_publication author_to_bold entry False of
        Inl err \<Rightarrow> Inl err
      | Inr r1 \<Rightarrow>
          (let b1 = (case r1 of
                       None \<Rightarrow> b
                     | Some (cat, line) \<Rightarrow>
                         if cat = lit ''journal''
                         then b\<lparr>journal_tex_entries := journal_tex_entries b @ [line]\<rparr>
                         else if cat = lit ''conference''
                         then b\<lparr>conf_tex_entries := conf_tex_entries b @ [line]\<rparr>
                         else b)
           in (case format_publication author_to_bold entry True of
                 Inl err \<Rightarrow> Inl err
               | Inr r2 \<Rightarrow>
                   Inr (case r2 of
                          None \<Rightarrow> b1
                        | Some (cat, line) \<Rightarrow>
                            if cat = lit ''journal''
                            then b1\<lparr>journal_html_entries := journal_html_entries b1 @ [li line]\<rparr>
                            else if cat = lit ''conference''
                            then b1\<lparr>conf_html_entries := conf_html_entries b1 @ [li line]\<rparr>
                            else b1))))"

fun pub_loop :: "str \<Rightarrow> pub_buckets \<Rightarrow> entry list \<Rightarrow> error + pub_buckets" where
  "pub_loop author_to_bold b [] = Inr b"
| "pub_loop author_to_bold b (entry # entries) =
     (case pub_step author_to_bold b entry of
        Inl err \<Rightarrow> Inl err
      | Inr b' \<Rightarrow> pub_loop author_to_bold b' entries)"

definition publications :: "str \<Rightarrow> entry list \<Rightarrow> error + pub_buckets" where
  "publications author_to_bold entries =
     pub_loop author_to_bold
       \<lparr>journal_tex_entries = [], conf_tex_entries = [],
        journal_html_entries = [], conf_html_entries = []\<rparr>
       (sort_entries entries)"

text \<open>The talks loop: category \<open>"conference"\<close> goes to one pair of lists, all else to the other.\<close>

record talk_buckets =
  conf_talks_tex :: "str list"
  other_talks_tex :: "str list"
  conf_talks_html :: "str list"
  other_talks_html :: "str list"

definition talk_step :: "talk_buckets \<Rightarrow> entry \<Rightarrow> talk_buckets" where
  "talk_step b entry =
     (let (cat1, line1) = format_talk entry False;
          b1 = (if cat1 = lit ''conference''
                then b\<lparr>conf_talks_tex := conf_talks_tex b @ [line1]\<rparr>
                else b\<lparr>other_talks_tex := other_talks_tex b @ [line1]\<rparr>);
          (cat2, line2) = format_talk entry True
      in if cat2 = lit ''conference''
         then b1\<lparr>conf_talks_html := conf_talks_html b1 @ [li line2]\<rparr>
         else b1\<lparr>other_talks_html := other_talks_html b1 @ [li line2]\<rparr>)"

definition talks :: "entry list \<Rightarrow> talk_buckets" where
  "talks entries =
     foldl talk_step
       \<lparr>conf_talks_tex = [], other_talks_tex = [], conf_talks_html = [], other_talks_html = []\<rparr>
       (sort_entries entries)"

text \<open>
  \<open>first_at sub text s k\<close>: \<open>k\<close> is the first position at or after \<open>s\<close> where \<open>sub\<close> occurs.
\<close>

definition first_at :: "'a list \<Rightarrow> 'a list \<Rightarrow> nat \<Rightarrow> nat \<Rightarrow> bool" where
  "first_at sub text s k \<longleftrightarrow>
     s \<le> k \<and> occurs_at sub text k \<and> (\<forall>j. s \<le> j \<and> j < k \<longrightarrow> \<not> occurs_at sub text j)"


section \<open>Notions used in the claims\<close>

text \<open>
  A string is already normalized when there is nothing left for \<open>latex_to_unicode\<close> to
  do: no key of the table occurs in it and it has no brace.
\<close>

definition already_normalized :: "str \<Rightarrow> bool" where
  "already_normalized s \<longleftrightarrow>
     list_all (\<lambda>(latex, uni). \<not> py_in latex s) replacements \<and> list_all (\<lambda>c. \<not> is_brace c) s"

text \<open>
  \<open>etype_is k e\<close>: the entry has an entry type and it is \<open>k\<close> in lower case. \<open>pub_line\<close> is the
  line that \<open>format_publication\<close> returns for an entry.
\<close>

definition etype_is :: "str \<Rightarrow> entry \<Rightarrow> bool" where
  "etype_is k e = (case e (lit ''ENTRYTYPE'') of None \<Rightarrow> False | Some t \<Rightarrow> py_lower t = k)"

definition pub_line :: "str \<Rightarrow> bool \<Rightarrow> entry \<Rightarrow> str" where
  "pub_line author_to_bold html e =
     (case format_publication author_to_bold e html of
        Inr (Some (cat, line)) \<Rightarrow> line
      | _ \<Rightarrow> [])"

definition talk_cat :: "entry \<Rightarrow> str" where
  "talk_cat e = get e (lit ''type'') (lit ''other'')"

definition talk_line :: "bool \<Rightarrow> entry \<Rightarrow> str" where
  "talk_line html e = snd (format_talk e html)"

text \<open>Descending order of the sort keys.\<close>

definition year_desc :: "entry \<Rightarrow> entry \<Rightarrow> bool" where
  "year_desc a b \<longleftrightarrow> year_key b \<le> year_key a"

text \<open>
  What is left of a fragment when markup and escape syntax are stripped, in the words of
  the specification of the two dialects: the accent escapes of the table are replaced by
  their letters, HTML tags (from \<open><\<close> to \<open>>\<close>) and TeX control words (a backslash and the
  letters that follow it) are removed, then the braces, then the whitespace around the
  result. \<open>strip_tags\<close> and \<open>strip_commands\<close> carry a flag: inside a tag, inside a control
  word.
\<close>

fun strip_tags :: "bool \<Rightarrow> str \<Rightarrow> str" where
  "strip_tags in_tag [] = []"
| "strip_tags False (c # cs) = (if c = 60 then strip_tags True cs else c # strip_tags False cs)"
| "strip_tags True (c # cs) = (if c = 62 then strip_tags False cs else strip_tags True cs)"

definition is_letter :: "nat \<Rightarrow> bool" where
  "is_letter c \<longleftrightarrow> (65 \<le> c \<and> c \<le> 90) \<or> (97 \<le> c \<and> c \<le> 122)"

fun strip_commands :: "bool \<Rightarrow> str \<Rightarrow> str" where
  "strip_commands in_cmd [] = []"
| "strip_commands in_cmd (c # cs) =
     (if c = BS then strip_commands True cs
      else if in_cmd \<and> is_letter c then strip_commands True cs
      else c # strip_commands False cs)"

definition strip_markup :: "str \<Rightarrow> str" where
  "strip_markup s =
     py_strip (filter (\<lambda>c. \<not> is_brace c)
       (strip_commands False (strip_tags False
          (foldl (\<lambda>s (latex, uni). py_replace latex uni s) s replacements))))"




text \<open>
  What the publication loop and the talks loop add to the lists while they run over
  \<open>es\<close>: \<open>b'\<close> is \<open>b\<close> with the lines of the entries of each category appended in order.
\<close>

definition pub_rel :: "str \<Rightarrow> pub_buckets \<Rightarrow> entry list \<Rightarrow> pub_buckets \<Rightarrow> bool" where
  "pub_rel atb b es b' \<longleftrightarrow>
     journal_tex_entries b' = journal_tex_entries b
        @ map (pub_line atb False) (filter (etype_is (lit ''article'')) es)
   \<and> conf_tex_entries b' = conf_tex_entries b
        @ map (pub_line atb False) (filter (etype_is (lit ''inproceedings'')) es)
   \<and> journal_html_entries b' = journal_html_entries b
        @ map (\<lambda>e. li (pub_line atb True e)) (filter (etype_is (lit ''article'')) es)
   \<and> conf_html_entries b' = conf_html_entries b
        @ map (\<lambda>e. li (pub_line atb True e)) (filter (etype_is (lit ''inproceedings'')) es)"

definition talk_rel :: "talk_buckets \<Rightarrow> entry list \<Rightarrow> talk_buckets \<Rightarrow> bool" where
  "talk_rel b es b' \<longleftrightarrow>
     conf_talks_tex b' = conf_talks_tex b
        @ map (talk_line False) (filter (\<lambda>e. talk_cat e = lit ''conference'') es)
   \<and> other_talks_tex b' = other_talks_tex b
        @ map (talk_line False) (filter (\<lambda>e. talk_cat e \<noteq> lit ''conference'') es)
   \<and> conf_talks_html b' = conf_talks_html b
        @ map (\<lambda>e. li (talk_line True e)) (filter (\<lambda>e. talk_cat e = lit ''conference'') es)
   \<and> other_talks_html b' = other_talks_html b
        @ map (\<lambda>e. li (talk_line True e)) (filter (\<lambda>e. talk_cat e \<noteq> lit ''conference'') es)"

section \<open>What \<open>find\<close> returns\<close>

lemma occurs_at_0: "occurs_at sub xs 0 = prefix sub xs"
proof
  assume "occurs_at sub xs 0"
  then have "take (length sub) xs = sub" by (simp add: occurs_at_def)
  then show "prefix sub xs" by (metis take_is_prefix)
next
  assume "prefix sub xs"
  then obtain zs where "xs = sub @ zs" by (auto simp: prefix_def)
  then show "occurs_at sub xs 0" by (simp add: occurs_at_def)
qed

lemma occurs_at_Suc: "occurs_at sub (x # xs) (Suc j) = occurs_at sub xs j"
  by (simp add: occurs_at_def)

lemma find_at_Some:
  "find_at sub xs i = Some k \<Longrightarrow> i \<le> k \<and> occurs_at sub xs (k - i) \<and> (\<forall>j < k - i. \<not> occurs_at sub xs j)"
proof (induction xs arbitrary: i)
  case Nil
  then show ?case by (auto simp: occurs_at_def split: if_splits)
next
  case (Cons x xs)
  show ?case
  proof (cases "prefix sub (x # xs)")
    case True
    with Cons.prems have "k = i" by simp
    with True show ?thesis by (simp add: occurs_at_0)
  next
    case False
    with Cons.prems have rec: "find_at sub xs (Suc i) = Some k" by simp
    from Cons.IH[OF rec] have le: "Suc i \<le> k" and occ: "occurs_at sub xs (k - Suc i)"
      and first: "\<forall>j < k - Suc i. \<not> occurs_at sub xs j" by auto
    from False have no0: "\<not> occurs_at sub (x # xs) 0" by (simp add: occurs_at_0)
    have "k - i = Suc (k - Suc i)" using le by simp
    with occ first no0 show ?thesis using le
      by (auto simp: less_Suc_eq_0_disj occurs_at_Suc)
  qed
qed

lemma find_at_None:
  "find_at sub xs i = None \<Longrightarrow> \<not> occurs_at sub xs j"
proof (induction xs arbitrary: i j)
  case Nil
  then show ?case by (auto simp: occurs_at_def split: if_splits)
next
  case (Cons x xs)
  from Cons.prems have np: "\<not> prefix sub (x # xs)" and rec: "find_at sub xs (Suc i) = None"
    by (auto split: if_splits)
  show ?case
  proof (cases j)
    case 0
    with np show ?thesis by (simp add: occurs_at_0)
  next
    case (Suc j')
    with Cons.IH[OF rec, of j'] show ?thesis by (simp add: occurs_at_Suc)
  qed
qed

lemma occurs_at_drop:
  "s \<le> length text \<Longrightarrow> occurs_at sub (drop s text) j = occurs_at sub text (s + j)"
  by (auto simp: occurs_at_def add.commute)

lemma occurs_at_le: "occurs_at sub text i \<Longrightarrow> i \<le> length text"
  by (simp add: occurs_at_def)

lemma py_find_first:
  assumes "s \<le> k" and "occurs_at sub text k"
    and "\<forall>j. s \<le> j \<and> j < k \<longrightarrow> \<not> occurs_at sub text j"
  shows "py_find text sub (int s) = int k"
proof -
  from assms(1,2) have sl: "s \<le> length text" using occurs_at_le by fastforce
  show ?thesis
  proof (cases "find_at sub (drop s text) s")
    case None
    from find_at_None[OF None, of "k - s"] assms(1,2) sl show ?thesis
      by (simp add: occurs_at_drop)
  next
    case (Some k')
    from find_at_Some[OF Some] sl have le: "s \<le> k'" and occ: "occurs_at sub text k'"
      and first: "\<forall>j < k' - s. \<not> occurs_at sub text (s + j)"
      by (auto simp: occurs_at_drop)
    have "k' = k"
    proof (rule ccontr)
      assume "k' \<noteq> k"
      then consider "k' < k" | "k < k'" by linarith
      then show False
      proof cases
        case 1 with le occ assms(3) show False by blast
      next
        case 2
        with assms(1) have "k - s < k' - s" by simp
        with first have "\<not> occurs_at sub text (s + (k - s))" by blast
        with assms(1,2) show False by simp
      qed
    qed
    with Some sl show ?thesis by (simp add: py_find_def)
  qed
qed

lemma py_find_none:
  assumes "\<forall>j\<ge>s. \<not> occurs_at sub text j"
  shows "py_find text sub (int s) = - 1"
proof (cases "s \<le> length text")
  case False
  then show ?thesis by (simp add: py_find_def)
next
  case True
  show ?thesis
  proof (cases "find_at sub (drop s text) s")
    case None
    with True show ?thesis by (simp add: py_find_def)
  next
    case (Some k')
    from find_at_Some[OF Some] True have "s \<le> k'" "occurs_at sub text k'"
      by (auto simp: occurs_at_drop)
    with assms show ?thesis by blast
  qed
qed

lemma py_find_nonneg_iff:
  "py_find text sub (int s) = int k \<longleftrightarrow>
     s \<le> k \<and> occurs_at sub text k \<and> (\<forall>j. s \<le> j \<and> j < k \<longrightarrow> \<not> occurs_at sub text j)"
proof
  assume r: "s \<le> k \<and> occurs_at sub text k \<and> (\<forall>j. s \<le> j \<and> j < k \<longrightarrow> \<not> occurs_at sub text j)"
  then show "py_find text sub (int s) = int k" using py_find_first by blast
next
  assume f: "py_find text sub (int s) = int k"
  then have sl: "s \<le> length text" by (auto simp: py_find_def Let_def split: if_splits)
  with f obtain k' where Some: "find_at sub (drop s text) s = Some k'" and "k' = k"
    by (auto simp: py_find_def Let_def split: option.splits)
  from find_at_Some[OF Some] sl \<open>k' = k\<close>
  have "s \<le> k" "occurs_at sub text k" "\<forall>j < k - s. \<not> occurs_at sub text (s + j)"
    by (auto simp: occurs_at_drop)
  moreover have "\<not> occurs_at sub text j" if "s \<le> j" "j < k" for j
  proof -
    from that have "j - s < k - s" by simp
    with calculation(3) have "\<not> occurs_at sub text (s + (j - s))" by blast
    with that show ?thesis by simp
  qed
  ultimately show "s \<le> k \<and> occurs_at sub text k \<and> (\<forall>j. s \<le> j \<and> j < k \<longrightarrow> \<not> occurs_at sub text j)"
    by blast
qed

lemma py_find_range: "py_find text sub start = - 1 \<or> 0 \<le> py_find text sub start"
  by (auto simp: py_find_def Let_def split: option.splits)

lemma py_find_neg_iff:
  "py_find text sub (int s) = - 1 \<longleftrightarrow> (\<forall>j\<ge>s. \<not> occurs_at sub text j)"
proof
  assume "\<forall>j\<ge>s. \<not> occurs_at sub text j" then show "py_find text sub (int s) = - 1"
    by (rule py_find_none)
next
  assume f: "py_find text sub (int s) = - 1"
  show "\<forall>j\<ge>s. \<not> occurs_at sub text j"
  proof (intro allI impI)
    fix j assume "s \<le> j"
    show "\<not> occurs_at sub text j"
    proof
      assume occ: "occurs_at sub text j"
      define P where "P = (\<lambda>i. s \<le> i \<and> occurs_at sub text i)"
      have "P j" using \<open>s \<le> j\<close> occ by (simp add: P_def)
      then have "P (LEAST i. P i)" by (rule LeastI)
      moreover have "\<And>i. P i \<Longrightarrow> (LEAST i. P i) \<le> i" by (rule Least_le)
      ultimately have "py_find text sub (int s) = int (LEAST i. P i)"
        unfolding P_def by (intro py_find_first) (auto simp: not_le[symmetric])
      with f show False by simp
    qed
  qed
qed

lemma py_find_first_at: "py_find text sub (int s) = int k \<longleftrightarrow> first_at sub text s k"
  by (simp add: first_at_def py_find_nonneg_iff)

lemma py_find_cases:
  obtains (absent) "py_find text sub (int s) = - 1" "\<forall>j\<ge>s. \<not> occurs_at sub text j"
  | (found) k where "py_find text sub (int s) = int k" "first_at sub text s k"
proof (cases "py_find text sub (int s) = - 1")
  case True
  then show ?thesis using absent py_find_neg_iff by blast
next
  case False
  with py_find_range[of "text" sub "int s"] have "0 \<le> py_find text sub (int s)" by blast
  then obtain k where "py_find text sub (int s) = int k" using nonneg_int_cases by blast
  then show ?thesis using found py_find_first_at by blast
qed

lemma replace_between_markers_found:
  assumes "first_at B text 0 i" and "first_at E text i k"
  shows "replace_between_markers text B E C =
           Inr (take (i + length B) text @ [NL] @ C @ [NL] @ drop k text)"
proof -
  from assms have "py_find text B 0 = int i" "py_find text E (int i) = int k"
    using py_find_first_at[of "text" B 0 i] py_find_first_at[of "text" E i k] by simp_all
  then show ?thesis
    by (simp add: replace_between_markers_def slice_to_def slice_from_def nat_add_distrib)
qed

lemma replace_between_markers_no_begin:
  assumes "\<forall>j. \<not> occurs_at B text j"
  shows "replace_between_markers text B E C = Inl (markers_not_found B E)"
proof -
  from assms have "py_find text B 0 = - 1" using py_find_neg_iff[of "text" B 0] by simp
  then show ?thesis by (simp add: replace_between_markers_def Let_def)
qed

lemma replace_between_markers_no_end:
  assumes "first_at B text 0 i" and "\<forall>j\<ge>i. \<not> occurs_at E text j"
  shows "replace_between_markers text B E C = Inl (markers_not_found B E)"
proof -
  from assms have "py_find text B 0 = int i" "py_find text E (int i) = - 1"
    using py_find_first_at[of "text" B 0 i] py_find_neg_iff[of "text" E i] by simp_all
  then show ?thesis by (simp add: replace_between_markers_def Let_def)
qed

lemma replace_between_markers_Inr_D:
  assumes "replace_between_markers text B E C = Inr r"
  obtains i k where "first_at B text 0 i" "first_at E text i k"
    "r = take (i + length B) text @ [NL] @ C @ [NL] @ drop k text"
proof -
  show ?thesis
  proof (cases rule: py_find_cases[of "text" B 0])
    case absent
    then have "replace_between_markers text B E C = Inl (markers_not_found B E)"
      by (intro replace_between_markers_no_begin) simp
    with assms show ?thesis by simp
  next
    case (found i)
    show ?thesis
    proof (cases rule: py_find_cases[of "text" E i])
      case absent
      with found have "replace_between_markers text B E C = Inl (markers_not_found B E)"
        by (intro replace_between_markers_no_end)
      with assms show ?thesis by simp
    next
      case (found k)
      note fk = found
      from replace_between_markers_found[OF \<open>first_at B text 0 i\<close> fk(2), of C] assms
      have "r = take (i + length B) text @ [NL] @ C @ [NL] @ drop k text" by simp
      with \<open>first_at B text 0 i\<close> fk(2) that show ?thesis by blast
    qed
  qed
qed

lemma set_occurrences: "j \<in> set (occurrences sub text) \<longleftrightarrow> occurs_at sub text j"
proof -
  have "occurs_at sub text j \<Longrightarrow> j < Suc (length text)"
    using occurs_at_le[of sub "text" j] by simp
  then show ?thesis unfolding occurrences_def by (auto simp del: upt_Suc)
qed

lemma sorted_occurrences: "sorted (occurrences sub text)"
  unfolding occurrences_def by (rule sorted_wrt_filter) (simp del: upt_Suc)

lemma first_index_None: "first_index sub text s = None \<longleftrightarrow> (\<forall>j\<ge>s. \<not> occurs_at sub text j)"
proof -
  have "first_index sub text s = None \<longleftrightarrow> filter (\<lambda>j. s \<le> j) (occurrences sub text) = []"
    by (simp add: first_index_def split: list.splits)
  also have "\<dots> \<longleftrightarrow> (\<forall>j \<in> set (occurrences sub text). \<not> s \<le> j)"
    by (simp add: filter_empty_conv)
  also have "\<dots> \<longleftrightarrow> (\<forall>j\<ge>s. \<not> occurs_at sub text j)"
    by (auto simp: set_occurrences)
  finally show ?thesis .
qed

lemma first_index_SomeD:
  assumes "first_index sub text s = Some k"
  shows "first_at sub text s k"
proof -
  from assms obtain ks where f: "filter (\<lambda>j. s \<le> j) (occurrences sub text) = k # ks"
    by (auto simp: first_index_def split: list.splits)
  then have "k \<in> set (filter (\<lambda>j. s \<le> j) (occurrences sub text))" by simp
  then have k: "s \<le> k" "occurs_at sub text k" by (auto simp: set_occurrences)
  have "sorted (filter (\<lambda>j. s \<le> j) (occurrences sub text))"
    using sorted_occurrences by (rule sorted_wrt_filter)
  with f have "sorted (k # ks)" by simp
  then have min: "\<And>j. j \<in> set (k # ks) \<Longrightarrow> k \<le> j" by auto
  have "\<not> occurs_at sub text j" if "s \<le> j" "j < k" for j
  proof
    assume "occurs_at sub text j"
    with that(1) have "j \<in> set (filter (\<lambda>j. s \<le> j) (occurrences sub text))"
      by (simp add: set_occurrences)
    with f have "j \<in> set (k # ks)" by simp
    then have "k \<le> j" by (rule min)
    with that(2) show False by simp
  qed
  with k show ?thesis unfolding first_at_def by blast
qed

lemma first_at_unique: "first_at sub text s k \<Longrightarrow> first_at sub text s k' \<Longrightarrow> k = k'"
  unfolding first_at_def by (meson linorder_neqE_nat)

lemma first_index_Some: "first_index sub text s = Some k \<longleftrightarrow> first_at sub text s k"
proof
  assume "first_index sub text s = Some k"
  then show "first_at sub text s k" by (rule first_index_SomeD)
next
  assume fa: "first_at sub text s k"
  show "first_index sub text s = Some k"
  proof (cases "first_index sub text s")
    case None
    with fa show ?thesis by (auto simp: first_index_None first_at_def)
  next
    case (Some k')
    then have "first_at sub text s k'" by (rule first_index_SomeD)
    with fa have "k' = k" using first_at_unique by blast
    with Some show ?thesis by simp
  qed
qed

section \<open>Occurrences in concatenated texts\<close>

lemma occurs_at_append_left:
  "j + length sub \<le> length xs \<Longrightarrow> occurs_at sub (xs @ ys) j = occurs_at sub xs j"
  by (auto simp: occurs_at_def)

lemma occurs_at_append_right:
  "occurs_at sub (xs @ ys) (length xs + j) = occurs_at sub ys j"
  by (simp add: occurs_at_def)

lemma occurs_at_mid: "occurs_at sub (xs @ sub @ ys) (length xs)"
  by (simp add: occurs_at_def)

lemma occurs_at_take:
  assumes "occurs_at sub text i"
  shows "take (i + length sub) text = take i text @ sub"
proof -
  from assms have "take (length sub) (drop i text) = sub" by (simp add: occurs_at_def)
  then show ?thesis by (simp only: take_add)
qed

lemma occurs_at_drop_eq:
  assumes "occurs_at sub text i"
  shows "drop i text = sub @ drop (i + length sub) text"
proof -
  from assms have "take (length sub) (drop i text) = sub" by (simp add: occurs_at_def)
  moreover have "drop i text = take (length sub) (drop i text) @ drop (length sub) (drop i text)"
    by (simp only: append_take_drop_id)
  moreover have "drop (length sub) (drop i text) = drop (i + length sub) text"
    by (simp add: add.commute)
  ultimately show ?thesis by simp
qed

lemma first_at_begin_kept:
  assumes "first_at B text 0 i"
  shows "first_at B (take (i + length B) text @ ys) 0 i"
proof -
  from assms have occ: "occurs_at B text i" by (simp add: first_at_def)
  define P where "P = take i text"
  from occ have lenP: "length P = i" by (simp add: P_def occurs_at_def)
  have PB: "take (i + length B) text = P @ B" unfolding P_def using occ by (rule occurs_at_take)
  have tPB: "text = (P @ B) @ drop (i + length B) text"
    unfolding PB[symmetric] by (simp only: append_take_drop_id)
  have "occurs_at B ((P @ B) @ ys) i"
    using occurs_at_mid[of B P ys] lenP by simp
  moreover have "\<not> occurs_at B ((P @ B) @ ys) j" if "j < i" for j
  proof -
    from that lenP have le: "j + length B \<le> length (P @ B)" by simp
    have "occurs_at B ((P @ B) @ ys) j = occurs_at B (P @ B) j"
      by (rule occurs_at_append_left[OF le])
    also have "\<dots> = occurs_at B ((P @ B) @ drop (i + length B) text) j"
      by (rule occurs_at_append_left[OF le, symmetric])
    also have "\<dots> = occurs_at B text j" using tPB by simp
    finally show ?thesis using assms that by (simp add: first_at_def)
  qed
  ultimately show ?thesis unfolding PB first_at_def by blast
qed

lemma first_at_end_seam:
  assumes seam: "occurrences E (B @ mid @ E) = [length B + length mid]"
  shows "first_at E (P @ (B @ mid @ E) @ R) (length P) (length P + length B + length mid)"
proof -
  define M where "M = B @ mid @ E"
  have "occurs_at E ((P @ B @ mid) @ E @ R) (length (P @ B @ mid))"
    by (rule occurs_at_mid)
  then have here: "occurs_at E (P @ M @ R) (length P + length B + length mid)"
    by (simp add: M_def add.assoc)
  have "\<not> occurs_at E (P @ M @ R) j" if "length P \<le> j" "j < length P + length B + length mid" for j
  proof
    assume occ: "occurs_at E (P @ M @ R) j"
    from that(1) obtain d where j: "j = length P + d" by (metis le_Suc_ex)
    from occ have "occurs_at E (M @ R) d"
      unfolding j by (simp only: occurs_at_append_right)
    moreover from that(2) have "d + length E \<le> length M"
      using j by (simp add: M_def)
    ultimately have "occurs_at E M d" by (simp only: occurs_at_append_left)
    then have "d \<in> set (occurrences E M)" by (simp only: set_occurrences)
    with seam have "d = length B + length mid" by (simp add: M_def)
    with j that(2) show False by simp
  qed
  with here show ?thesis unfolding first_at_def M_def by simp
qed


text \<open>The definitions that evaluate the string operations on literals.\<close>

lemmas str_eval = lit_def replace_between_markers_def markers_not_found_def py_find_def
  slice_to_def slice_from_def occurrences_def occurs_at_def first_index_def Let_def

section \<open>The marker splicer: claims\<close>

text \<open>
  Claim C1. When the begin marker occurs exactly once in the text, at \<open>i\<close>, the end marker
  exactly once, at \<open>k\<close>, and \<open>i < k\<close>, the splice succeeds and returns
  \<open>text[:i + len(B)] + "\n" + C + "\n" + text[k:]\<close>: the text up to and including the
  begin marker, a newline, the new content, a newline, and the text from the end marker on.
\<close>

theorem splice_unique_markers:
  assumes "occurrences B text = [i]" and "occurrences E text = [k]" and "i < k"
  shows "replace_between_markers text B E C =
           Inr (take (i + length B) text @ [NL] @ C @ [NL] @ drop k text)"
proof -
  have B: "occurs_at B text j \<longleftrightarrow> j = i" for j
    using assms(1) set_occurrences[of j B "text"] by simp
  have E: "occurs_at E text j \<longleftrightarrow> j = k" for j
    using assms(2) set_occurrences[of j E "text"] by simp
  have "first_at B text 0 i" unfolding first_at_def by (simp add: B)
  moreover have "first_at E text i k" unfolding first_at_def using assms(3) by (simp add: E)
  ultimately show ?thesis by (rule replace_between_markers_found)
qed


text \<open>Claim C1, on the text \<open>"X <!--B--> old <!--E--> Y"\<close> with the markers at 2 and 15.\<close>

theorem splice_unique_markers_witness:
  "replace_between_markers (lit ''X <!--B--> old <!--E--> Y'') (lit ''<!--B-->'')
       (lit ''<!--E-->'') (lit ''new'')
     = Inr (lit ''X <!--B-->'' @ [NL] @ lit ''new'' @ [NL] @ lit ''<!--E--> Y'')"
proof -
  have b: "occurrences (lit ''<!--B-->'') (lit ''X <!--B--> old <!--E--> Y'') = [2]"
    by (simp add: str_eval)
  have e: "occurrences (lit ''<!--E-->'') (lit ''X <!--B--> old <!--E--> Y'') = [15]"
    by (simp add: str_eval)
  have lt: "(2::nat) < 15" by simp
  from splice_unique_markers[OF b e lt, of "lit ''new''"] show ?thesis by (simp add: lit_def)
qed


text \<open>
  Claim C2, as the spec words it, does not hold: the search for the end marker starts at
  the start of the begin marker's occurrence, not at its end. In \<open>"<!--B-->x"\<close> with begin
  marker \<open>"<!--B-->"\<close> and end marker \<open>"-->"\<close> the end marker does not occur at or after
  position 8, the end of the begin marker, and yet the splice succeeds. And the error does
  not tell which marker is missing: a text without the begin marker and a text without the
  end marker raise the same ValueError.
\<close>

theorem splice_search_counterexample:
  "first_index (lit ''<!--B-->'') (lit ''<!--B-->x'') 0 = Some 0
   \<and> first_index (lit ''-->'') (lit ''<!--B-->x'') (0 + length (lit ''<!--B-->'')) = None
   \<and> replace_between_markers (lit ''<!--B-->x'') (lit ''<!--B-->'') (lit ''-->'') (lit ''new'')
       = Inr (lit ''<!--B-->'' @ [NL] @ lit ''new'' @ [NL] @ lit ''-->x'')
   \<and> replace_between_markers (lit ''xE'') (lit ''B'') (lit ''E'') (lit ''new'')
       = Inl (ValueError (lit ''Markers B / E not found''))
   \<and> replace_between_markers (lit ''Bx'') (lit ''B'') (lit ''E'') (lit ''new'')
       = Inl (ValueError (lit ''Markers B / E not found''))"
  by (simp add: str_eval)

text \<open>
  Claim C2, amended. The splice finds the first occurrence of the begin marker, at \<open>i\<close>,
  and then the first occurrence of the end marker at or after \<open>i\<close>, the start of the begin
  marker. It raises ValueError, with one message that names both markers, when the begin
  marker does not occur, and when the end marker does not occur at or after \<open>i\<close>, whether
  or not it occurs before. Otherwise it returns the spliced text.
\<close>

theorem splice_first_index:
  "replace_between_markers text B E C =
     (case first_index B text 0 of
        None \<Rightarrow> Inl (markers_not_found B E)
      | Some i \<Rightarrow>
          (case first_index E text i of
             None \<Rightarrow> Inl (markers_not_found B E)
           | Some k \<Rightarrow> Inr (take (i + length B) text @ [NL] @ C @ [NL] @ drop k text)))"
proof (cases "first_index B text 0")
  case None
  then have "\<forall>j. \<not> occurs_at B text j" by (simp add: first_index_None)
  with None show ?thesis by (simp add: replace_between_markers_no_begin)
next
  case (Some i)
  then have fb: "first_at B text 0 i" by (simp add: first_index_Some)
  show ?thesis
  proof (cases "first_index E text i")
    case None
    then have "\<forall>j\<ge>i. \<not> occurs_at E text j" by (simp add: first_index_None)
    with fb have "replace_between_markers text B E C = Inl (markers_not_found B E)"
      by (rule replace_between_markers_no_end)
    with Some None show ?thesis by simp
  next
    case (Some k)
    then have "first_at E text i k" by (simp add: first_index_Some)
    with fb have "replace_between_markers text B E C =
           Inr (take (i + length B) text @ [NL] @ C @ [NL] @ drop k text)"
      by (rule replace_between_markers_found)
    with \<open>first_index B text 0 = Some i\<close> Some show ?thesis by simp
  qed
qed

text \<open>
  Claim C6, as the spec words it, does not hold: the result has no space before the end
  marker, since the preserved suffix starts at the end marker itself.
\<close>

theorem splice_example_counterexample:
  "replace_between_markers (lit ''X <!--B--> old <!--E--> Y'') (lit ''<!--B-->'')
       (lit ''<!--E-->'') (lit ''new'')
     \<noteq> Inr (lit ''X <!--B-->'' @ [NL] @ lit ''new'' @ [NL] @ lit '' <!--E--> Y'')"
  by (simp add: str_eval)

text \<open>
  Claim C6, amended. Splicing \<open>"X <!--B--> old <!--E--> Y"\<close> with the markers \<open>"<!--B-->"\<close>
  and \<open>"<!--E-->"\<close> and the content \<open>"new"\<close> yields \<open>"X <!--B-->\nnew\n<!--E--> Y"\<close>.
\<close>

theorem splice_example:
  "replace_between_markers (lit ''X <!--B--> old <!--E--> Y'') (lit ''<!--B-->'')
       (lit ''<!--E-->'') (lit ''new'')
     = Inr (lit ''X <!--B-->'' @ [NL] @ lit ''new'' @ [NL] @ lit ''<!--E--> Y'')"
  by (simp add: str_eval)

text \<open>
  Claim C7, as the spec words it, does not hold. With the begin marker \<open>"<!--B-->"\<close>, a
  blank line \<open>"\n\n"\<close> as end marker and the empty content, each marker occurs once in
  \<open>"<!--B-->old\n\nrest"\<close>, the begin marker first, and the content contains neither; but
  the newlines that the splice adds form an end marker before the old one, and splicing
  the result again gives a longer text.
\<close>

theorem resplice_counterexample:
  "occurrences (lit ''<!--B-->'') (lit ''<!--B-->old'' @ [NL, NL] @ lit ''rest'') = [0]
   \<and> occurrences [NL, NL] (lit ''<!--B-->old'' @ [NL, NL] @ lit ''rest'') = [11]
   \<and> \<not> py_in (lit ''<!--B-->'') [] \<and> \<not> py_in [NL, NL] []
   \<and> replace_between_markers (lit ''<!--B-->old'' @ [NL, NL] @ lit ''rest'') (lit ''<!--B-->'') [NL, NL] []
       = Inr (lit ''<!--B-->'' @ [NL, NL, NL, NL] @ lit ''rest'')
   \<and> replace_between_markers (lit ''<!--B-->'' @ [NL, NL, NL, NL] @ lit ''rest'') (lit ''<!--B-->'') [NL, NL] []
       = Inr (lit ''<!--B-->'' @ [NL, NL, NL, NL, NL, NL] @ lit ''rest'')"
  by (simp add: str_eval py_in_def)


text \<open>
  Claim C7, amended. If a splice succeeds with result \<open>r\<close>, and the end marker occurs in
  \<open>B + "\n" + C + "\n" + E\<close> only as its last \<open>len(E)\<close> characters (no end marker inside
  the begin marker or the content, or across a seam), then splicing \<open>r\<close> again with the
  same markers and content succeeds and returns \<open>r\<close>; both markers are still in place.
\<close>

theorem resplice_idempotent:
  assumes ok: "replace_between_markers text B E C = Inr r"
    and seam: "occurrences E (B @ [NL] @ C @ [NL] @ E) = [length B + length C + 2]"
  shows "replace_between_markers r B E C = Inr r"
proof -
  from ok obtain i k where fb: "first_at B text 0 i" and fe: "first_at E text i k"
    and r: "r = take (i + length B) text @ [NL] @ C @ [NL] @ drop k text"
    by (rule replace_between_markers_Inr_D)
  define P where "P = take i text"
  define mid where "mid = [NL] @ C @ [NL]"
  define R where "R = drop (k + length E) text"
  from fb have occB: "occurs_at B text i" by (simp add: first_at_def)
  from fe have occE: "occurs_at E text k" by (simp add: first_at_def)
  from occB have lenP: "length P = i" by (simp add: P_def occurs_at_def)
  have lenmid: "length mid = length C + 2" by (simp add: mid_def)
  have PB: "take (i + length B) text = P @ B" unfolding P_def using occB by (rule occurs_at_take)
  have ER: "drop k text = E @ R" unfolding R_def using occE by (rule occurs_at_drop_eq)
  have r1: "r = take (i + length B) text @ (mid @ E @ R)" by (simp add: r ER mid_def)
  have r2: "r = P @ (B @ mid @ E) @ R" by (simp add: r1 PB)
  have fb': "first_at B r 0 i" unfolding r1 using fb by (rule first_at_begin_kept)
  from seam have seam': "occurrences E (B @ mid @ E) = [length B + length mid]"
    by (simp add: mid_def)
  have fe': "first_at E r i (i + length B + length mid)"
    using first_at_end_seam[OF seam', of P R] by (simp only: r2 lenP)
  have tk: "take (i + length B) r = P @ B" by (simp add: r2 lenP)
  have "r = (P @ B @ mid) @ (E @ R)" by (simp add: r2)
  moreover have "length (P @ B @ mid) = i + length B + length mid" by (simp add: lenP)
  ultimately have dr: "drop (i + length B + length mid) r = E @ R"
    by (metis append_eq_conv_conj)
  have "replace_between_markers r B E C = Inr (take (i + length B) r @ [NL] @ C @ [NL] @ drop (i + length B + length mid) r)"
    using fb' fe' by (rule replace_between_markers_found)
  also have "\<dots> = Inr r" unfolding tk dr by (simp add: r2 mid_def)
  finally show ?thesis .
qed



text \<open>Claim C7, amended, on the text and markers of the example of C6.\<close>

theorem resplice_idempotent_witness:
  "replace_between_markers (lit ''X <!--B-->'' @ [NL] @ lit ''new'' @ [NL] @ lit ''<!--E--> Y'')
     (lit ''<!--B-->'') (lit ''<!--E-->'') (lit ''new'')
   = Inr (lit ''X <!--B-->'' @ [NL] @ lit ''new'' @ [NL] @ lit ''<!--E--> Y'')"
proof -
  have ok: "replace_between_markers (lit ''X <!--B--> old <!--E--> Y'') (lit ''<!--B-->'')
       (lit ''<!--E-->'') (lit ''new'')
     = Inr (lit ''X <!--B-->'' @ [NL] @ lit ''new'' @ [NL] @ lit ''<!--E--> Y'')"
    by (simp add: str_eval)
  have seam: "occurrences (lit ''<!--E-->'')
      (lit ''<!--B-->'' @ [NL] @ lit ''new'' @ [NL] @ lit ''<!--E-->'')
     = [length (lit ''<!--B-->'') + length (lit ''new'') + 2]"
    by (simp add: str_eval)
  from resplice_idempotent[OF ok seam] show ?thesis .
qed

section \<open>Strings without the pattern, and stripping\<close>




lemma find_at_None_shift: "find_at sub xs i = None \<Longrightarrow> find_at sub xs j = None"
  by (induction xs arbitrary: i j) (auto split: if_splits)

lemma py_replace_absent:
  assumes "\<not> py_in old s"
  shows "py_replace old new s = s"
proof -
  from assms have "find_at old s 0 = None" by (simp add: py_in_def)
  then show ?thesis
  proof (induction s)
    case Nil
    then show ?case by (simp split: if_splits)
  next
    case (Cons x xs)
    from Cons.prems have np: "\<not> prefix old (x # xs)" and "find_at old xs (Suc 0) = None"
      by (auto split: if_splits)
    then have "find_at old xs 0 = None" using find_at_None_shift by blast
    with Cons.IH have "py_replace old new xs = xs" by simp
    moreover from np have "old \<noteq> []" by auto
    ultimately show ?case using np by simp
  qed
qed

lemma foldl_replace_absent:
  "list_all (\<lambda>(latex, uni). \<not> py_in latex s) reps \<Longrightarrow>
   foldl (\<lambda>s (latex, uni). py_replace latex uni s) s reps = s"
  by (induction reps) (auto simp: py_replace_absent)

section \<open>The lines of the two kinds of publication\<close>

lemma kinds_distinct: "lit ''article'' \<noteq> lit ''inproceedings''"
  by (simp add: lit_def)

lemma format_publication_article:
  assumes "e (lit ''ENTRYTYPE'') = Some t" and "py_lower t = lit ''article''"
  shows "format_publication atb e html =
    Inr (Some (lit ''journal'',
      if html
      then html_line (format_authors atb (get e (lit ''author'') []) True)
             (latex_to_unicode (py_strip_chars (lit ''{}'') (get e (lit ''title'') [])))
             (article_details e)
           @ html_links (get e (lit ''doi'') []) (hal_or_url e)
      else tex_line (format_authors atb (get e (lit ''author'') []) False)
             (py_strip_chars (lit ''{}'') (get e (lit ''title'') []))
             (article_details e)
           @ article_tex_link (get e (lit ''doi'') [])))"
  using assms by (simp add: format_publication_def Let_def)

lemma format_publication_inproceedings:
  assumes "e (lit ''ENTRYTYPE'') = Some t" and "py_lower t = lit ''inproceedings''"
  shows "format_publication atb e html =
    Inr (Some (lit ''conference'',
      if html
      then html_line (format_authors atb (get e (lit ''author'') []) True)
             (latex_to_unicode (py_strip_chars (lit ''{}'') (get e (lit ''title'') [])))
             (inproceedings_details e)
           @ html_links (get e (lit ''doi'') []) (hal_or_url e)
      else tex_line (format_authors atb (get e (lit ''author'') []) False)
             (py_strip_chars (lit ''{}'') (get e (lit ''title'') []))
             (inproceedings_details e)
           @ inproceedings_tex_link (get e (lit ''doi'') []) (hal_or_url e)))"
  using assms kinds_distinct by (simp add: format_publication_def Let_def)

lemma format_publication_other:
  assumes "e (lit ''ENTRYTYPE'') = Some t" and "py_lower t \<noteq> lit ''article''"
    and "py_lower t \<noteq> lit ''inproceedings''"
  shows "format_publication atb e html = Inr None"
  using assms by (simp add: format_publication_def Let_def)

lemma format_publication_no_type:
  assumes "e (lit ''ENTRYTYPE'') = None"
  shows "format_publication atb e html = Inl (KeyError (lit ''ENTRYTYPE''))"
  using assms by (simp add: format_publication_def)


section \<open>Sorting and the loops\<close>

lemma sort_entries_mset: "mset (sort_entries es) = mset es"
  by (simp add: sort_entries_def)

lemma sort_entries_sorted: "sorted_wrt year_desc (sort_entries es)"
proof -
  have "sorted (map year_key (sort_key year_key (rev es)))" by (rule sorted_sort_key)
  then have "sorted_wrt (\<lambda>a b. year_key a \<le> year_key b) (sort_key year_key (rev es))"
    by (simp add: sorted_map)
  then show ?thesis
    unfolding sort_entries_def sorted_wrt_rev year_desc_def .
qed

lemma sort_entries_stable:
  "filter (\<lambda>e. year_key e = k) (sort_entries es) = filter (\<lambda>e. year_key e = k) es"
proof -
  have "filter (\<lambda>e. year_key e = k) (sort_entries es)
        = rev (filter (\<lambda>e. year_key e = k) (sort_key year_key (rev es)))"
    by (simp add: sort_entries_def rev_filter)
  also have "\<dots> = rev (filter (\<lambda>e. year_key e = k) (rev es))"
    by (simp only: sort_key_stable)
  also have "\<dots> = filter (\<lambda>e. year_key e = k) es"
    by (simp add: rev_filter)
  finally show ?thesis .
qed

lemma cats_distinct: "lit ''journal'' \<noteq> lit ''conference''"
  by (simp add: lit_def)

lemma pub_step_rel:
  assumes "pub_step atb b e = Inr b'"
  shows "pub_rel atb b [e] b'"
proof (cases "e (lit ''ENTRYTYPE'')")
  case None
  then have "pub_step atb b e = Inl (KeyError (lit ''ENTRYTYPE''))"
    by (simp add: pub_step_def format_publication_no_type)
  with assms show ?thesis by simp
next
  case (Some t)
  consider (art) "py_lower t = lit ''article''"
    | (inp) "py_lower t = lit ''inproceedings''"
    | (oth) "py_lower t \<noteq> lit ''article''" "py_lower t \<noteq> lit ''inproceedings''"
    by blast
  then show ?thesis
  proof cases
    case art
    note fp = format_publication_article[of e t, OF Some art]
    have k: "etype_is (lit ''article'') e" "\<not> etype_is (lit ''inproceedings'') e"
      using Some art kinds_distinct by (simp_all add: etype_is_def)
    have "pub_step atb b e = Inr (b\<lparr>journal_tex_entries := journal_tex_entries b @ [pub_line atb False e],
              journal_html_entries := journal_html_entries b @ [li (pub_line atb True e)]\<rparr>)"
      by (simp add: pub_step_def fp pub_line_def Let_def)
    with assms have "b' = b\<lparr>journal_tex_entries := journal_tex_entries b @ [pub_line atb False e],
              journal_html_entries := journal_html_entries b @ [li (pub_line atb True e)]\<rparr>"
      by simp
    then show ?thesis using k by (simp add: pub_rel_def)
  next
    case inp
    note fp = format_publication_inproceedings[of e t, OF Some inp]
    have k: "\<not> etype_is (lit ''article'') e" "etype_is (lit ''inproceedings'') e"
      using Some inp kinds_distinct by (simp_all add: etype_is_def)
    have "pub_step atb b e = Inr (b\<lparr>conf_tex_entries := conf_tex_entries b @ [pub_line atb False e],
              conf_html_entries := conf_html_entries b @ [li (pub_line atb True e)]\<rparr>)"
      using cats_distinct by (simp add: pub_step_def fp pub_line_def Let_def)
    with assms have "b' = b\<lparr>conf_tex_entries := conf_tex_entries b @ [pub_line atb False e],
              conf_html_entries := conf_html_entries b @ [li (pub_line atb True e)]\<rparr>"
      by simp
    then show ?thesis using k by (simp add: pub_rel_def)
  next
    case oth
    note fp = format_publication_other[of e t, OF Some oth]
    have k: "\<not> etype_is (lit ''article'') e" "\<not> etype_is (lit ''inproceedings'') e"
      using Some oth by (simp_all add: etype_is_def)
    have "pub_step atb b e = Inr b" by (simp add: pub_step_def fp)
    with assms have "b' = b" by simp
    then show ?thesis using k by (simp add: pub_rel_def)
  qed
qed

lemma pub_loop_rel:
  "pub_loop atb b es = Inr b' \<Longrightarrow> pub_rel atb b es b'"
proof (induction es arbitrary: b)
  case Nil
  then show ?case by (simp add: pub_rel_def)
next
  case (Cons e es)
  from Cons.prems obtain b1 where s: "pub_step atb b e = Inr b1" and l: "pub_loop atb b1 es = Inr b'"
    by (auto split: sum.splits)
  from pub_step_rel[OF s] Cons.IH[OF l] show ?case
    by (simp add: pub_rel_def)
qed

lemma format_talk_cat: "fst (format_talk e html) = talk_cat e"
  by (simp add: format_talk_def talk_cat_def Let_def)

lemma talk_step_rel: "talk_rel b [e] (talk_step b e)"
proof -
  have 1: "format_talk e False = (talk_cat e, talk_line False e)"
    using format_talk_cat[of e False] by (simp add: talk_line_def prod_eq_iff)
  have 2: "format_talk e True = (talk_cat e, talk_line True e)"
    using format_talk_cat[of e True] by (simp add: talk_line_def prod_eq_iff)
  show ?thesis by (simp add: talk_step_def 1 2 talk_rel_def)
qed

lemma talk_loop_rel: "talk_rel b es (foldl talk_step b es)"
proof (induction es arbitrary: b)
  case Nil
  then show ?case by (simp add: talk_rel_def)
next
  case (Cons e es)
  from talk_step_rel[of b e] Cons.IH[of "talk_step b e"] show ?case
    by (simp add: talk_rel_def)
qed

section \<open>Stripping the markup of a line\<close>


























text \<open>The definitions that evaluate the formatter and the loops on literals.\<close>

lemmas field_eval = format_authors_def embolden_def py_in_def py_strip_def
  py_strip_chars_def strip_by_def is_space_def is_brace_def py_lower_def get_def hal_or_url_def
  article_details_def inproceedings_details_def html_links_def html_line_def tex_line_def
  article_tex_link_def inproceedings_tex_link_def latex_to_unicode_def replacements_def
  lit_def Let_def

lemmas fmt_eval = format_publication_def field_eval

lemmas loop_eval = publications_def pub_step_def sort_entries_def year_key_def li_def
  talks_def talk_step_def format_talk_def

lemmas strip_eval = strip_markup_def is_letter_def py_strip_def strip_by_def is_space_def
  is_brace_def replacements_def lit_def

section \<open>The record formatter: claims\<close>




text \<open>
  A field with an angle bracket is outside this: a title \<open>a<b\<close> opens a tag that ends at
  the next \<open>>\<close>, which is in the markup of the web line only.
\<close>

lemma stripped_differs_at_angle_bracket:
  "strip_markup (pub_line (lit ''Two'') False
      [lit ''ENTRYTYPE'' \<mapsto> lit ''article'', lit ''author'' \<mapsto> lit ''A. One'',
       lit ''title'' \<mapsto> lit ''a<b'', lit ''journal'' \<mapsto> lit ''J''])
     = lit ''A. One. a''
   \<and> strip_markup (pub_line (lit ''Two'') True
      [lit ''ENTRYTYPE'' \<mapsto> lit ''article'', lit ''author'' \<mapsto> lit ''A. One'',
       lit ''title'' \<mapsto> lit ''a<b'', lit ''journal'' \<mapsto> lit ''J''])
     = lit ''A. One. aJ.''"
proof -
  have 1: "pub_line (lit ''Two'') False
      [lit ''ENTRYTYPE'' \<mapsto> lit ''article'', lit ''author'' \<mapsto> lit ''A. One'',
       lit ''title'' \<mapsto> lit ''a<b'', lit ''journal'' \<mapsto> lit ''J'']
    = [BS] @ lit ''item A. One. a<b. '' @ [BS] @ lit ''textit{J}.''"
    by (simp add: pub_line_def fmt_eval)
  have 2: "pub_line (lit ''Two'') True
      [lit ''ENTRYTYPE'' \<mapsto> lit ''article'', lit ''author'' \<mapsto> lit ''A. One'',
       lit ''title'' \<mapsto> lit ''a<b'', lit ''journal'' \<mapsto> lit ''J'']
    = lit ''A. One. a<b. <em>J</em>.''"
    by (simp add: pub_line_def fmt_eval)
  have 3: "strip_markup ([BS] @ lit ''item A. One. a<b. '' @ [BS] @ lit ''textit{J}.'') = lit ''A. One. a''"
    by (simp add: strip_eval)
  have 4: "strip_markup (lit ''A. One. a<b. <em>J</em>.'') = lit ''A. One. aJ.''"
    by (simp add: strip_eval)
  from 1 2 3 4 show ?thesis by simp
qed

text \<open>
  Accent escapes are not plain, but a well-formed one is read alike in both lines: the
  stripped structured line and the stripped web line both carry the accented letter.
\<close>

lemma stripped_agrees_with_accent:
  "strip_markup (pub_line (lit ''Two'') False
      [lit ''ENTRYTYPE'' \<mapsto> lit ''article'',
       lit ''title'' \<mapsto> lit ''Caf'' @ [LBRACE, BS, APOS] @ lit ''e} Study''])
     = lit ''. Caf'' @ [233] @ lit '' Study. .''
   \<and> strip_markup (pub_line (lit ''Two'') True
      [lit ''ENTRYTYPE'' \<mapsto> lit ''article'',
       lit ''title'' \<mapsto> lit ''Caf'' @ [LBRACE, BS, APOS] @ lit ''e} Study''])
     = lit ''. Caf'' @ [233] @ lit '' Study. .''"
proof -
  have 1: "pub_line (lit ''Two'') False
      [lit ''ENTRYTYPE'' \<mapsto> lit ''article'',
       lit ''title'' \<mapsto> lit ''Caf'' @ [LBRACE, BS, APOS] @ lit ''e} Study'']
    = [BS] @ lit ''item . Caf'' @ [LBRACE, BS, APOS] @ lit ''e} Study. '' @ [BS] @ lit ''textit{}.''"
    by (simp add: pub_line_def fmt_eval)
  have 2: "pub_line (lit ''Two'') True
      [lit ''ENTRYTYPE'' \<mapsto> lit ''article'',
       lit ''title'' \<mapsto> lit ''Caf'' @ [LBRACE, BS, APOS] @ lit ''e} Study'']
    = lit ''. Caf'' @ [233] @ lit '' Study. <em></em>.''"
    by (simp add: pub_line_def fmt_eval)
  have 3: "strip_markup ([BS] @ lit ''item . Caf'' @ [LBRACE, BS, APOS] @ lit ''e} Study. '' @ [BS] @ lit ''textit{}.'')
      = lit ''. Caf'' @ [233] @ lit '' Study. .''"
    by (simp add: strip_eval)
  have 4: "strip_markup (lit ''. Caf'' @ [233] @ lit '' Study. <em></em>.'')
      = lit ''. Caf'' @ [233] @ lit '' Study. .''"
    by (simp add: strip_eval)
  from 1 2 3 4 show ?thesis by simp
qed

text \<open>
  Claim C4, as the spec words it, does not hold: the sort key is the year as a string, so
  a year that is not a number is not the lowest value. An article of \<open>2020\<close> and one that
  is \<open>in press\<close> come out with the one in press first, in both dialects.
\<close>

theorem year_order_counterexample:
  "publications (lit ''Boukraa'')
     [[lit ''ENTRYTYPE'' \<mapsto> lit ''article'', lit ''title'' \<mapsto> lit ''A'', lit ''year'' \<mapsto> lit ''2020''],
      [lit ''ENTRYTYPE'' \<mapsto> lit ''article'', lit ''title'' \<mapsto> lit ''B'', lit ''year'' \<mapsto> lit ''in press'']]
   = Inr \<lparr>journal_tex_entries =
            [[BS] @ lit ''item . B. '' @ [BS] @ lit ''textit{, in press}.'',
             [BS] @ lit ''item . A. '' @ [BS] @ lit ''textit{, 2020}.''],
          conf_tex_entries = [],
          journal_html_entries =
            [lit ''<li>. B. <em>, in press</em>.</li>'', lit ''<li>. A. <em>, 2020</em>.</li>''],
          conf_html_entries = []\<rparr>"
  by (simp add: loop_eval fmt_eval)

text \<open>
  Claim C4, amended. Before any formatting the entries are sorted by the year field as a
  string, in descending lexicographic order of code points, a missing year being read as
  \<open>"0"\<close>; the sort is a stable rearrangement, so entries with equal keys keep their order.
  Every bucket holds the lines of its entries in this sorted order, in both dialects, for
  publications and for talks: an entry whose key is strictly greater comes before.
\<close>

theorem buckets_in_year_key_order:
  "sorted_wrt year_desc (sort_entries es)
   \<and> mset (sort_entries es) = mset es
   \<and> (\<forall>k. filter (\<lambda>e. year_key e = k) (sort_entries es) = filter (\<lambda>e. year_key e = k) es)
   \<and> (publications atb es = Inr b \<longrightarrow>
        journal_tex_entries b
          = map (pub_line atb False) (filter (etype_is (lit ''article'')) (sort_entries es))
      \<and> conf_tex_entries b
          = map (pub_line atb False) (filter (etype_is (lit ''inproceedings'')) (sort_entries es))
      \<and> journal_html_entries b
          = map (\<lambda>e. li (pub_line atb True e)) (filter (etype_is (lit ''article'')) (sort_entries es))
      \<and> conf_html_entries b
          = map (\<lambda>e. li (pub_line atb True e))
              (filter (etype_is (lit ''inproceedings'')) (sort_entries es)))
   \<and> conf_talks_tex (talks es)
        = map (talk_line False) (filter (\<lambda>e. talk_cat e = lit ''conference'') (sort_entries es))
   \<and> other_talks_tex (talks es)
        = map (talk_line False) (filter (\<lambda>e. talk_cat e \<noteq> lit ''conference'') (sort_entries es))
   \<and> conf_talks_html (talks es)
        = map (\<lambda>e. li (talk_line True e))
            (filter (\<lambda>e. talk_cat e = lit ''conference'') (sort_entries es))
   \<and> other_talks_html (talks es)
        = map (\<lambda>e. li (talk_line True e))
            (filter (\<lambda>e. talk_cat e \<noteq> lit ''conference'') (sort_entries es))"
proof -
  have pubs: "pub_rel atb \<lparr>journal_tex_entries = [], conf_tex_entries = [],
        journal_html_entries = [], conf_html_entries = []\<rparr> (sort_entries es) b"
    if "publications atb es = Inr b"
    using that unfolding publications_def by (rule pub_loop_rel)
  have tk: "talk_rel \<lparr>conf_talks_tex = [], other_talks_tex = [], conf_talks_html = [],
        other_talks_html = []\<rparr> (sort_entries es) (talks es)"
    unfolding talks_def by (rule talk_loop_rel)
  from pubs have 4: "publications atb es = Inr b \<longrightarrow>
        journal_tex_entries b
          = map (pub_line atb False) (filter (etype_is (lit ''article'')) (sort_entries es))
      \<and> conf_tex_entries b
          = map (pub_line atb False) (filter (etype_is (lit ''inproceedings'')) (sort_entries es))
      \<and> journal_html_entries b
          = map (\<lambda>e. li (pub_line atb True e)) (filter (etype_is (lit ''article'')) (sort_entries es))
      \<and> conf_html_entries b
          = map (\<lambda>e. li (pub_line atb True e))
              (filter (etype_is (lit ''inproceedings'')) (sort_entries es))"
    by (simp add: pub_rel_def)
  from tk have 5: "conf_talks_tex (talks es)
        = map (talk_line False) (filter (\<lambda>e. talk_cat e = lit ''conference'') (sort_entries es))"
    and 6: "other_talks_tex (talks es)
        = map (talk_line False) (filter (\<lambda>e. talk_cat e \<noteq> lit ''conference'') (sort_entries es))"
    and 7: "conf_talks_html (talks es)
        = map (\<lambda>e. li (talk_line True e))
            (filter (\<lambda>e. talk_cat e = lit ''conference'') (sort_entries es))"
    and 8: "other_talks_html (talks es)
        = map (\<lambda>e. li (talk_line True e))
            (filter (\<lambda>e. talk_cat e \<noteq> lit ''conference'') (sort_entries es))"
    by (simp_all add: talk_rel_def)
  from sort_entries_sorted sort_entries_mset sort_entries_stable 4 5 6 7 8
  show ?thesis by blast
qed

text \<open>Claim C4, amended, on two articles of 2019 and 2021.\<close>

theorem buckets_in_year_key_order_witness:
  "map (pub_line (lit ''Boukraa'') False) (filter (etype_is (lit ''article''))
     (sort_entries
       [[lit ''ENTRYTYPE'' \<mapsto> lit ''article'', lit ''title'' \<mapsto> lit ''A'', lit ''year'' \<mapsto> lit ''2019''],
        [lit ''ENTRYTYPE'' \<mapsto> lit ''article'', lit ''title'' \<mapsto> lit ''B'', lit ''year'' \<mapsto> lit ''2021'']]))
   = [[BS] @ lit ''item . B. '' @ [BS] @ lit ''textit{, 2021}.'',
      [BS] @ lit ''item . A. '' @ [BS] @ lit ''textit{, 2019}.'']"
proof -
  define es :: "entry list" where "es =
       [[lit ''ENTRYTYPE'' \<mapsto> lit ''article'', lit ''title'' \<mapsto> lit ''A'', lit ''year'' \<mapsto> lit ''2019''],
        [lit ''ENTRYTYPE'' \<mapsto> lit ''article'', lit ''title'' \<mapsto> lit ''B'', lit ''year'' \<mapsto> lit ''2021'']]"
  define b where "b = \<lparr>journal_tex_entries =
            [[BS] @ lit ''item . B. '' @ [BS] @ lit ''textit{, 2021}.'',
             [BS] @ lit ''item . A. '' @ [BS] @ lit ''textit{, 2019}.''],
          conf_tex_entries = [],
          journal_html_entries =
            [lit ''<li>. B. <em>, 2021</em>.</li>'', lit ''<li>. A. <em>, 2019</em>.</li>''],
          conf_html_entries = []\<rparr>"
  have p: "publications (lit ''Boukraa'') es = Inr b"
    unfolding es_def b_def by (simp add: loop_eval fmt_eval)
  from buckets_in_year_key_order[of es "lit ''Boukraa''" b] p
  have "journal_tex_entries b
          = map (pub_line (lit ''Boukraa'') False) (filter (etype_is (lit ''article'')) (sort_entries es))"
    by blast
  then show ?thesis unfolding es_def b_def by simp
qed




text \<open>
  Claim C8. On an already normalized string \<open>latex_to_unicode\<close> changes nothing, so
  normalizing twice is the same as normalizing once.
\<close>

theorem latex_to_unicode_idempotent_normalized:
  assumes "already_normalized s"
  shows "latex_to_unicode s = s \<and> latex_to_unicode (latex_to_unicode s) = latex_to_unicode s"
proof -
  from assms have "foldl (\<lambda>s (latex, uni). py_replace latex uni s) s replacements = s"
    by (simp add: already_normalized_def foldl_replace_absent)
  moreover from assms have "filter (\<lambda>c. \<not> is_brace c) s = s"
    by (simp add: already_normalized_def list_all_iff)
  ultimately have "latex_to_unicode s = s" by (simp add: latex_to_unicode_def)
  then show ?thesis by simp
qed

text \<open>Claim C8, on a string with an accented letter, an ampersand and a backslash.\<close>

theorem latex_to_unicode_idempotent_normalized_witness:
  "latex_to_unicode ([233] @ lit ''cole & '' @ [BS] @ lit ''alpha'') = [233] @ lit ''cole & '' @ [BS] @ lit ''alpha''
   \<and> latex_to_unicode (latex_to_unicode ([233] @ lit ''cole & '' @ [BS] @ lit ''alpha''))
     = latex_to_unicode ([233] @ lit ''cole & '' @ [BS] @ lit ''alpha'')"
proof -
  have "already_normalized ([233] @ lit ''cole & '' @ [BS] @ lit ''alpha'')"
    by (simp add: already_normalized_def replacements_def py_in_def is_brace_def lit_def)
  then show ?thesis by (rule latex_to_unicode_idempotent_normalized)
qed

text \<open>
  The restriction to normalized input matters: four backslashes and an ampersand
  normalize to two backslashes and an ampersand, which normalize to an ampersand.
\<close>

lemma latex_to_unicode_ampersand_twice: "latex_to_unicode ([BS, BS, BS, BS] @ lit ''&'') = [BS, BS] @ lit ''&''
  \<and> latex_to_unicode ([BS, BS] @ lit ''&'') = lit ''&''"
  by (simp add: latex_to_unicode_def replacements_def is_brace_def lit_def)

text \<open>
  Claim C9. The journal article of the example, with \<open>"Two"\<close> as the name to set in bold,
  gives in the web dialect the line of the spec, followed by the DOI link and no HAL link.
\<close>

theorem journal_web_example:
  "format_publication (lit ''Two'')
     [lit ''ENTRYTYPE'' \<mapsto> lit ''article'', lit ''author'' \<mapsto> lit ''A. One and B. Two'',
      lit ''title'' \<mapsto> lit ''{Study}'', lit ''journal'' \<mapsto> lit ''J'',
      lit ''year'' \<mapsto> lit ''2020'', lit ''doi'' \<mapsto> lit ''10.1/x'']
     True
   = Inr (Some (lit ''journal'',
        lit ''A. One, <strong>B. Two</strong>. Study. <em>J, 2020</em>.''
        @ lit '' <a href='' @ [DQ] @ lit ''https://doi.org/10.1/x'' @ [DQ] @ lit ''>DOI</a>''))"
  by (simp add: fmt_eval)

text \<open>
  Claim C10. For a conference paper the structured line always ends with a link command:
  to the DOI when there is one, else to the HAL identifier or URL, and when all three
  fields are empty or absent it ends with \<open>": \href{}{\nolinkurl{}}"\<close>.
\<close>

theorem conference_tex_link_always:
  assumes "e (lit ''ENTRYTYPE'') = Some t" and "py_lower t = lit ''inproceedings''"
  shows "format_publication atb e False =
           Inr (Some (lit ''conference'',
             tex_line (format_authors atb (get e (lit ''author'') []) False)
               (py_strip_chars (lit ''{}'') (get e (lit ''title'') [])) (inproceedings_details e)
             @ lit '': '' @ [BS] @ lit ''href{''
             @ (if get e (lit ''doi'') [] \<noteq> [] then lit ''https://doi.org/'' @ get e (lit ''doi'') []
                else hal_or_url e)
             @ lit ''}{'' @ [BS] @ lit ''nolinkurl{''
             @ (if get e (lit ''doi'') [] \<noteq> [] then get e (lit ''doi'') [] else hal_or_url e)
             @ lit ''}}''))
       \<and> (get e (lit ''doi'') [] = [] \<and> get e (lit ''hal_id'') [] = [] \<and> get e (lit ''url'') [] = []
            \<longrightarrow> format_publication atb e False =
                Inr (Some (lit ''conference'',
                  tex_line (format_authors atb (get e (lit ''author'') []) False)
                    (py_strip_chars (lit ''{}'') (get e (lit ''title'') []))
                    (inproceedings_details e)
                  @ lit '': '' @ [BS] @ lit ''href{}{'' @ [BS] @ lit ''nolinkurl{}}'')))"
  using assms
  by (simp add: format_publication_inproceedings inproceedings_tex_link_def hal_or_url_def lit_def)

text \<open>Claim C10, on a conference paper with a title and a book title only.\<close>

theorem conference_tex_link_always_witness:
  "format_publication (lit ''Boukraa'')
     [lit ''ENTRYTYPE'' \<mapsto> lit ''InProceedings'', lit ''title'' \<mapsto> lit ''T'',
      lit ''booktitle'' \<mapsto> lit ''Conf''] False
   = Inr (Some (lit ''conference'',
       [BS] @ lit ''item . T. '' @ [BS] @ lit ''textit{Conf}.: '' @ [BS] @ lit ''href{}{'' @ [BS]
       @ lit ''nolinkurl{}}''))"
proof -
  define e :: entry where "e = [lit ''ENTRYTYPE'' \<mapsto> lit ''InProceedings'', lit ''title'' \<mapsto> lit ''T'',
      lit ''booktitle'' \<mapsto> lit ''Conf'']"
  have 1: "e (lit ''ENTRYTYPE'') = Some (lit ''InProceedings'')" by (simp add: e_def lit_def)
  have 2: "py_lower (lit ''InProceedings'') = lit ''inproceedings''"
    by (simp add: py_lower_def lit_def)
  have 3: "get e (lit ''doi'') [] = [] \<and> get e (lit ''hal_id'') [] = [] \<and> get e (lit ''url'') [] = []"
    by (simp add: e_def get_def lit_def)
  from conference_tex_link_always[of e "lit ''InProceedings''" "lit ''Boukraa''", OF 1 2] 3
  have "format_publication (lit ''Boukraa'') e False =
                Inr (Some (lit ''conference'',
                  tex_line (format_authors (lit ''Boukraa'') (get e (lit ''author'') []) False)
                    (py_strip_chars (lit ''{}'') (get e (lit ''title'') []))
                    (inproceedings_details e)
                  @ lit '': '' @ [BS] @ lit ''href{}{'' @ [BS] @ lit ''nolinkurl{}}''))"
    by blast
  then show ?thesis unfolding e_def by (simp add: field_eval)
qed

end
